theory Spec2Isabelle
  imports Complex_Main
begin

section \<open>JavaScript numbers\<close>

text \<open>
  The benchmark is a TypeScript script; every \<^verbatim>\<open>number\<close> in it is an ECMAScript Number, that
  is an IEEE-754 binary64 value. A number is one of the special values or a finite value
  \<open>Fin r\<close>, where \<open>r\<close> is the real it denotes; \<open>Fin 0\<close> is \<open>+0\<close> and \<open>NegZero\<close>
  is \<open>-0\<close>. Every arithmetic operation computes the exact real result and rounds it with
  \<open>round64\<close> (round to nearest, ties to even, gradual underflow, overflow to infinity), as
  ECMAScript prescribes for \<^verbatim>\<open>+ - * /\<close>.
\<close>

datatype number = NaN | PosInf | NegInf | NegZero | Fin real

definition pow2 :: "int \<Rightarrow> real" where
  "pow2 e = (if 0 \<le> e then 2 ^ nat e else 1 / 2 ^ nat (- e))"

text \<open>\<open>int_log b n\<close> is \<open>\<lfloor>log\<^sub>b n\<rfloor>\<close> for an integer \<open>n \<ge> 1\<close> and a base \<open>b \<ge> 2\<close>.\<close>

function int_log :: "int \<Rightarrow> int \<Rightarrow> nat" where
  "int_log b n = (if n < b \<or> b < 2 then 0 else Suc (int_log b (n div b)))"
  by pat_completeness auto
termination
proof (relation "measure (\<lambda>(b, n). nat n)")
  show "wf (measure (\<lambda>(b, n). nat n))"
    by simp
next
  fix b n :: int
  assume "\<not> (n < b \<or> b < 2)"
  then have "n div b < n"
    by (simp add: int_div_less_self)
  moreover have "0 < n"
    using \<open>\<not> (n < b \<or> b < 2)\<close> by simp
  ultimately show "((b, n div b), (b, n)) \<in> measure (\<lambda>(b, n). nat n)"
    by simp
qed

declare int_log.simps [simp del]

text \<open>\<open>ilog2 a\<close> is the binary exponent \<open>\<lfloor>log\<^sub>2 a\<rfloor>\<close> of a positive real.\<close>

definition ilog2 :: "real \<Rightarrow> int" where
  "ilog2 a = (if 1 \<le> a then int (int_log 2 \<lfloor>a\<rfloor>)
              else - 1 - int (int_log 2 (\<lceil>1 / a\<rceil> - 1)))"

definition round_half_even :: "real \<Rightarrow> int" where
  "round_half_even y =
     (let f = \<lfloor>y\<rfloor>; d = y - of_int f
      in if d < 1 / 2 then f else if 1 / 2 < d then f + 1 else if even f then f else f + 1)"

text \<open>
  The unit in the last place of \<open>a\<close> is \<open>2 ^ e\<close> with \<open>e = max (ilog2 a - 52) (-1074)\<close>:
  53 significant bits, and the subnormal spacing \<open>2 ^ -1074\<close> below \<open>2 ^ -1022\<close>. The
  significand \<open>m\<close> is at most \<open>2 ^ 53\<close>, so the rounded magnitude reaches \<open>2 ^ 1024\<close>
  exactly when \<open>971 < e\<close>, or \<open>e = 971\<close> and \<open>m = 2 ^ 53\<close>.
\<close>

definition round64 :: "real \<Rightarrow> number" where
  "round64 r =
     (if r = 0 then Fin 0
      else
        let a = \<bar>r\<bar>;
            e = max (ilog2 a - 52) (- 1074);
            m = round_half_even (a / pow2 e);
            v = of_int m * pow2 e
        in if 971 < e \<or> (e = 971 \<and> m = 2 ^ 53) then (if r < 0 then NegInf else PosInf)
           else if m = 0 then (if r < 0 then NegZero else Fin 0)
           else Fin (if r < 0 then - v else v))"

text \<open>
  \<open>Fin r\<close> is a value of the type only when \<open>r\<close> is a binary64 number, that is when
  rounding leaves it as it is.
\<close>

definition double :: "number \<Rightarrow> bool" where
  "double x = (case x of Fin r \<Rightarrow> round64 r = Fin r | _ \<Rightarrow> True)"

text \<open>
  The pieces of \<open>round64\<close> for a positive real: the exponent of the unit in the last
  place, the significand, whether the result overflows, and the rounded value.
\<close>

definition ulp_exp :: "real \<Rightarrow> int" where
  "ulp_exp a = max (ilog2 a - 52) (- 1074)"

definition significand :: "real \<Rightarrow> int" where
  "significand a = round_half_even (a / pow2 (ulp_exp a))"

definition overflows :: "real \<Rightarrow> bool" where
  "overflows r = (971 < ulp_exp r \<or> (ulp_exp r = 971 \<and> significand r = 2 ^ 53))"

definition rounded :: "real \<Rightarrow> real" where
  "rounded r = of_int (significand r) * pow2 (ulp_exp r)"

fun rv :: "number \<Rightarrow> real" where
  "rv (Fin r) = r"
| "rv _ = 0"

fun is_zero :: "number \<Rightarrow> bool" where
  "is_zero (Fin r) = (r = 0)"
| "is_zero NegZero = True"
| "is_zero _ = False"

fun is_finite :: "number \<Rightarrow> bool" where
  "is_finite (Fin r) = True"
| "is_finite NegZero = True"
| "is_finite _ = False"

fun is_infinite :: "number \<Rightarrow> bool" where
  "is_infinite PosInf = True"
| "is_infinite NegInf = True"
| "is_infinite _ = False"

text \<open>The sign bit: set for \<open>-0\<close>, \<open>-\<infinity>\<close> and the negative finite values.\<close>

fun sign_bit :: "number \<Rightarrow> bool" where
  "sign_bit NegInf = True"
| "sign_bit NegZero = True"
| "sign_bit (Fin r) = (r < 0)"
| "sign_bit _ = False"

definition signed_zero :: "bool \<Rightarrow> number" where
  "signed_zero s = (if s then NegZero else Fin 0)"

definition signed_inf :: "bool \<Rightarrow> number" where
  "signed_inf s = (if s then NegInf else PosInf)"

fun fneg :: "number \<Rightarrow> number" where
  "fneg NaN = NaN"
| "fneg PosInf = NegInf"
| "fneg NegInf = PosInf"
| "fneg NegZero = Fin 0"
| "fneg (Fin r) = (if r = 0 then NegZero else Fin (- r))"

text \<open>Number::add. The sum of two zeros is \<open>-0\<close> only when both are \<open>-0\<close>; an exact sum
  of zero of two non-zero operands is \<open>+0\<close>.\<close>

definition fadd :: "number \<Rightarrow> number \<Rightarrow> number" where
  "fadd x y =
     (if x = NaN \<or> y = NaN then NaN
      else if is_infinite x then (if is_infinite y \<and> x \<noteq> y then NaN else x)
      else if is_infinite y then y
      else if x = NegZero \<and> y = NegZero then NegZero
      else round64 (rv x + rv y))"

definition fsub :: "number \<Rightarrow> number \<Rightarrow> number" where
  "fsub x y = fadd x (fneg y)"

definition fmul :: "number \<Rightarrow> number \<Rightarrow> number" where
  "fmul x y =
     (let s = (sign_bit x \<noteq> sign_bit y)
      in if x = NaN \<or> y = NaN then NaN
         else if is_infinite x \<or> is_infinite y
           then (if is_zero x \<or> is_zero y then NaN else signed_inf s)
         else if is_zero x \<or> is_zero y then signed_zero s
         else round64 (rv x * rv y))"

definition fdiv :: "number \<Rightarrow> number \<Rightarrow> number" where
  "fdiv x y =
     (let s = (sign_bit x \<noteq> sign_bit y)
      in if x = NaN \<or> y = NaN then NaN
         else if is_infinite x then (if is_infinite y then NaN else signed_inf s)
         else if is_infinite y then signed_zero s
         else if is_zero y then (if is_zero x then NaN else signed_inf s)
         else if is_zero x then signed_zero s
         else round64 (rv x / rv y))"

text \<open>The relational operators \<^verbatim>\<open><\<close> and \<^verbatim>\<open><=\<close>: false as soon as an operand is \<open>NaN\<close>;
  the two zeros compare equal.\<close>

definition fless :: "number \<Rightarrow> number \<Rightarrow> bool" where
  "fless x y =
     (if x = NaN \<or> y = NaN then False
      else if x = PosInf \<or> y = NegInf then False
      else if x = NegInf \<or> y = PosInf then True
      else rv x < rv y)"

definition fle :: "number \<Rightarrow> number \<Rightarrow> bool" where
  "fle x y = (x \<noteq> NaN \<and> y \<noteq> NaN \<and> \<not> fless y x)"

definition of_length :: "'a list \<Rightarrow> number" where
  "of_length xs = Fin (of_nat (length xs))"

subsection \<open>The Math object\<close>

text \<open>
  \<^verbatim>\<open>Math.min\<close> and \<^verbatim>\<open>Math.max\<close> start from \<open>+\<infinity>\<close> and \<open>-\<infinity>\<close>, return \<open>NaN\<close> as soon as an
  argument is \<open>NaN\<close>, and order \<open>-0\<close> below \<open>+0\<close>.
\<close>

definition min_step :: "number \<Rightarrow> number \<Rightarrow> number" where
  "min_step lowest x =
     (if x = NegZero \<and> lowest = Fin 0 then NegZero
      else if fless x lowest then x else lowest)"

definition max_step :: "number \<Rightarrow> number \<Rightarrow> number" where
  "max_step highest x =
     (if x = Fin 0 \<and> highest = NegZero then Fin 0
      else if fless highest x then x else highest)"

definition Math_min :: "number list \<Rightarrow> number" where
  "Math_min xs = (if NaN \<in> set xs then NaN else foldl min_step PosInf xs)"

definition Math_max :: "number list \<Rightarrow> number" where
  "Math_max xs = (if NaN \<in> set xs then NaN else foldl max_step NegInf xs)"

fun Math_abs :: "number \<Rightarrow> number" where
  "Math_abs NaN = NaN"
| "Math_abs PosInf = PosInf"
| "Math_abs NegInf = PosInf"
| "Math_abs NegZero = Fin 0"
| "Math_abs (Fin r) = Fin \<bar>r\<bar>"


text \<open>
  \<^verbatim>\<open>Math.sqrt\<close>, \<^verbatim>\<open>Math.pow\<close> and \<^verbatim>\<open>Math.log\<close>: the special cases are those ECMAScript lists;
  on the remaining arguments the language asks for an approximation of the real result,
  taken here as the correctly rounded one.
\<close>

fun Math_sqrt :: "number \<Rightarrow> number" where
  "Math_sqrt NaN = NaN"
| "Math_sqrt PosInf = PosInf"
| "Math_sqrt NegInf = NaN"
| "Math_sqrt NegZero = NegZero"
| "Math_sqrt (Fin r) = (if r < 0 then NaN else round64 (sqrt r))"

definition is_integral :: "real \<Rightarrow> bool" where
  "is_integral r = (of_int \<lfloor>r\<rfloor> = r)"

definition is_odd_integer :: "number \<Rightarrow> bool" where
  "is_odd_integer y = (is_finite y \<and> is_integral (rv y) \<and> odd \<lfloor>rv y\<rfloor>)"

definition int_power :: "real \<Rightarrow> int \<Rightarrow> real" where
  "int_power b k = (if 0 \<le> k then b ^ nat k else 1 / b ^ nat (- k))"

text \<open>Number::exponentiate (base, exponent), case by case in the order of the standard.\<close>

definition Math_pow :: "number \<Rightarrow> number \<Rightarrow> number" where
  "Math_pow b y =
     (if y = NaN then NaN
      else if is_zero y then Fin 1
      else if b = NaN then NaN
      else if b = PosInf then (if fless (Fin 0) y then PosInf else Fin 0)
      else if b = NegInf then
        (if fless (Fin 0) y then (if is_odd_integer y then NegInf else PosInf)
         else (if is_odd_integer y then NegZero else Fin 0))
      else if b = Fin 0 then (if fless (Fin 0) y then Fin 0 else PosInf)
      else if b = NegZero then
        (if fless (Fin 0) y then (if is_odd_integer y then NegZero else Fin 0)
         else (if is_odd_integer y then NegInf else PosInf))
      else if y = PosInf then
        (if 1 < \<bar>rv b\<bar> then PosInf else if \<bar>rv b\<bar> = 1 then NaN else Fin 0)
      else if y = NegInf then
        (if 1 < \<bar>rv b\<bar> then Fin 0 else if \<bar>rv b\<bar> = 1 then NaN else PosInf)
      else if is_integral (rv y) then round64 (int_power (rv b) \<lfloor>rv y\<rfloor>)
      else if rv b < 0 then NaN
      else round64 (rv b powr rv y))"


subsection \<open>Arrays of numbers\<close>

text \<open>
  \<^verbatim>\<open>xs[i]\<close> read as a number: an index outside the array yields \<^verbatim>\<open>undefined\<close>, which the
  arithmetic operators convert to \<open>NaN\<close>.
\<close>

definition num_at :: "number list \<Rightarrow> int \<Rightarrow> number" where
  "num_at xs i = (if 0 \<le> i \<and> i < int (length xs) then xs ! nat i else NaN)"

text \<open>
  \<^verbatim>\<open>Array.prototype.sort\<close> with a comparison function: a comparator result of \<open>NaN\<close> counts
  as \<open>+0\<close>, and the sort is stable. \<open>x\<close> goes before \<open>y\<close> only when the comparator is
  negative on \<open>(x, y)\<close>.
\<close>

definition SortCompare :: "(number \<Rightarrow> number \<Rightarrow> number) \<Rightarrow> number \<Rightarrow> number \<Rightarrow> number" where
  "SortCompare comparefn x y = (let v = comparefn x y in if v = NaN then Fin 0 else v)"

fun sort_insert :: "(number \<Rightarrow> number \<Rightarrow> number) \<Rightarrow> number \<Rightarrow> number list \<Rightarrow> number list" where
  "sort_insert comparefn x [] = [x]"
| "sort_insert comparefn x (y # ys) =
     (if fless (SortCompare comparefn x y) (Fin 0) then x # y # ys
      else y # sort_insert comparefn x ys)"

definition array_sort :: "(number \<Rightarrow> number \<Rightarrow> number) \<Rightarrow> number list \<Rightarrow> number list" where
  "array_sort comparefn xs = foldl (\<lambda>acc x. sort_insert comparefn x acc) [] xs"

section \<open>Numbers and strings\<close>

text \<open>
  Strings are lists of bytes, a character outside ASCII being its UTF-8 encoding.
\<close>

definition digit_char :: "int \<Rightarrow> char" where
  "digit_char d = ''0123456789'' ! nat d"

text \<open>The decimal digits of a non-negative integer.\<close>

function digits :: "int \<Rightarrow> string" where
  "digits n = (if n < 10 then [digit_char n] else digits (n div 10) @ [digit_char (n mod 10)])"
  by pat_completeness auto
termination
  by (relation "measure nat") (auto simp: int_div_less_self)

declare digits.simps [simp del]

definition pow10 :: "int \<Rightarrow> real" where
  "pow10 e = (if 0 \<le> e then 10 ^ nat e else 1 / 10 ^ nat (- e))"

text \<open>\<open>ilog10 a\<close> is the decimal exponent \<open>\<lfloor>log\<^sub>1\<^sub>0 a\<rfloor>\<close> of a positive real.\<close>

definition ilog10 :: "real \<Rightarrow> int" where
  "ilog10 a = (if 1 \<le> a then int (int_log 10 \<lfloor>a\<rfloor>)
               else - 1 - int (int_log 10 (\<lceil>1 / a\<rceil> - 1)))"

subsection \<open>Number::toString\<close>

text \<open>
  The decimal digits of a positive finite \<open>x\<close>: integers \<open>n\<close>, \<open>k\<close>, \<open>s\<close> with
  \<open>10 ^ (k - 1) \<le> s < 10 ^ k\<close>, such that \<open>s * 10 ^ (n - k)\<close> rounds to \<open>x\<close> and \<open>k\<close> is as
  small as possible; of several \<open>s\<close> the one closest to \<open>x\<close>, then the even one.
  \<open>digits_of_length k x\<close> tries the two \<open>k\<close>-digit decimals around \<open>x\<close> and returns
  \<open>(s, n)\<close>; seventeen digits always suffice.
\<close>

definition digits_of_length :: "nat \<Rightarrow> real \<Rightarrow> (int \<times> int) option" where
  "digits_of_length k x =
     (let n = ilog10 x + 1;
          scale = pow10 (n - int k);
          lo = \<lfloor>x / scale\<rfloor>;
          hi = lo + 1;
          lo_ok = (round64 (of_int lo * scale) = Fin x);
          hi_ok = (round64 (of_int hi * scale) = Fin x);
          lo_near = (x - of_int lo * scale < of_int hi * scale - x
                     \<or> (x - of_int lo * scale = of_int hi * scale - x \<and> even lo));
          up = (if hi = 10 ^ k then (10 ^ (k - 1), n + 1) else (hi, n))
      in if lo_ok \<and> (\<not> hi_ok \<or> lo_near) then Some (lo, n)
         else if hi_ok then Some up
         else None)"

function shortest_digits :: "nat \<Rightarrow> real \<Rightarrow> int \<times> int" where
  "shortest_digits k x =
     (case digits_of_length k x of
        Some r \<Rightarrow> r
      | None \<Rightarrow> if k < 17 then shortest_digits (Suc k) x else (\<lfloor>x\<rfloor>, int k))"
  by pat_completeness auto
termination
  by (relation "measure (\<lambda>(k, x). 17 - k)") auto

declare shortest_digits.simps [simp del]

definition render_digits :: "int \<Rightarrow> int \<Rightarrow> string" where
  "render_digits s n =
     (let ds = digits s; k = int (length ds)
      in if - 5 \<le> n \<and> n \<le> 21 then
           (if k \<le> n then ds @ replicate (nat (n - k)) (CHR ''0'')
            else if 0 < n then take (nat n) ds @ ''.'' @ drop (nat n) ds
            else ''0.'' @ replicate (nat (- n)) (CHR ''0'') @ ds)
         else
           (let e = n - 1;
                ex = (if e < 0 then ''-'' else ''+'') @ digits \<bar>e\<bar>
            in if k = 1 then ds @ ''e'' @ ex
               else take 1 ds @ ''.'' @ drop 1 ds @ ''e'' @ ex))"

fun Number_toString :: "number \<Rightarrow> string" where
  "Number_toString NaN = ''NaN''"
| "Number_toString PosInf = ''Infinity''"
| "Number_toString NegInf = ''-Infinity''"
| "Number_toString NegZero = ''0''"
| "Number_toString (Fin r) =
     (if r = 0 then ''0''
      else (if r < 0 then ''-'' else []) @
           (case shortest_digits 1 \<bar>r\<bar> of (s, n) \<Rightarrow> render_digits s n))"

subsection \<open>Number.prototype.toFixed\<close>

text \<open>
  \<open>toFixed x f\<close>: a number that is not finite is rendered by \<open>Number_toString\<close>, and so
  is a magnitude of \<open>10 ^ 21\<close> or more. Otherwise \<open>n\<close> is the integer nearest to
  \<open>\<bar>x\<bar> * 10 ^ f\<close>, the larger one of two, and its digits are printed with \<open>f\<close> of them
  after the point.
\<close>

definition toFixed :: "number \<Rightarrow> nat \<Rightarrow> string" where
  "toFixed x f =
     (if \<not> is_finite x then Number_toString x
      else
        let r = rv x;
            s = (if r < 0 then ''-'' else []);
            a = \<bar>r\<bar>
        in if 10 ^ 21 \<le> a then s @ Number_toString (Fin a)
           else
             let n = \<lfloor>a * 10 ^ f + 1 / 2\<rfloor>;
                 m = digits n;
                 m = (if f \<noteq> 0 \<and> length m \<le> f
                      then replicate (f + 1 - length m) (CHR ''0'') @ m else m);
                 k = length m
             in if f = 0 then s @ m
                else s @ take (k - f) m @ ''.'' @ drop (k - f) m)"

subsection \<open>parseFloat\<close>








section \<open>Formatting\<close>

text \<open>
  The labels of \<^verbatim>\<open>calculateImprovement\<close> start with a coloured circle (U+1F7E2 green,
  U+1F534 red, U+1F7E1 yellow) and end with a word of two Chinese characters: faster
  (U+66F4 U+5FEB), slower (U+66F4 U+6162), the same (U+76F8 U+540C).
\<close>

definition green_circle :: string where
  "green_circle = [CHR 0xF0, CHR 0x9F, CHR 0x9F, CHR 0xA2]"

definition red_circle :: string where
  "red_circle = [CHR 0xF0, CHR 0x9F, CHR 0x94, CHR 0xB4]"

definition yellow_circle :: string where
  "yellow_circle = [CHR 0xF0, CHR 0x9F, CHR 0x9F, CHR 0xA1]"

definition word_faster :: string where
  "word_faster = [CHR 0xE6, CHR 0x9B, CHR 0xB4, CHR 0xE5, CHR 0xBF, CHR 0xAB]"

definition word_slower :: string where
  "word_slower = [CHR 0xE6, CHR 0x9B, CHR 0xB4, CHR 0xE6, CHR 0x85, CHR 0xA2]"

definition word_same :: string where
  "word_same = [CHR 0xE7, CHR 0x9B, CHR 0xB8, CHR 0xE5, CHR 0x90, CHR 0x8C]"

definition calculateImprovement :: "number \<Rightarrow> number \<Rightarrow> string" where
  "calculateImprovement baseline comparison =
     (let improvement = fmul (fdiv (fsub baseline comparison) baseline) (Fin 100)
      in if fless (Fin 0) improvement
           then green_circle @ '' '' @ toFixed improvement 1 @ ''% '' @ word_faster
         else if fless improvement (Fin 0)
           then red_circle @ '' '' @ toFixed (Math_abs improvement) 1 @ ''% '' @ word_slower
         else yellow_circle @ '' '' @ word_same)"




section \<open>Statistics of a series of durations\<close>

record Stats =
  mean :: number
  stats_min :: number
  stats_max :: number
  stdDev :: number
  median :: number

definition calculateStats :: "number list \<Rightarrow> Stats" where
  "calculateStats values =
     (let sorted = array_sort (\<lambda>a b. fsub a b) values;
          mean = fdiv (foldl (\<lambda>sum val. fadd sum val) (Fin 0) values) (of_length values);
          variance =
            fdiv (foldl (\<lambda>sum val. fadd sum (Math_pow (fsub val mean) (Fin 2))) (Fin 0) values)
              (of_length values);
          stdDev = Math_sqrt variance;
          median =
            (if length sorted mod 2 = 0
             then fdiv (fadd (num_at sorted (int (length sorted div 2) - 1))
                             (num_at sorted (int (length sorted div 2)))) (Fin 2)
             else num_at sorted (int (length sorted div 2)))
      in \<lparr> mean = mean, stats_min = Math_min values, stats_max = Math_max values,
           stdDev = stdDev, median = median \<rparr>)"

section \<open>The environment of the script\<close>

text \<open>
  The script runs against a MongoDB server, through the driver, reads the system clock
  and draws random numbers. All of this is state: a \<open>world\<close> holds what the script has
  printed, the readings the clock will deliver, the random draws, the collections of
  the database, and for every call made to the driver or to the server host the
  failure it meets, if any (a lost connection, a rejected command). An asynchronous
  function is a function from the world to an outcome and the world it leaves; \<^verbatim>\<open>await\<close>
  is \<open>io_bind\<close>, which passes a rejection on, and \<^verbatim>\<open>.catch\<close> is \<open>io_catch\<close>.
  The calls made to the database are taken to settle.
\<close>

datatype error = NamespaceNotFound | NamespaceExists | RangeError | External string

datatype 'a outcome = Resolved 'a | Rejected error

record meta =
  sensor :: string

record SyntheticRecord =
  timestamp :: number
  value' :: number
  meta :: meta

record timeseries_options =
  timeField :: string
  metaField :: string
  granularity :: string

record collection =
  options :: "timeseries_options option"
  documents :: "SyntheticRecord list"

record world =
  stdout :: string
  stderr :: string
  clock :: "nat \<Rightarrow> int"
  clock_reads :: nat
  random_source :: "nat \<Rightarrow> real"
  random_draws :: nat
  faults :: "nat \<Rightarrow> error option"
  calls :: nat
  collections :: "string \<Rightarrow> collection option"
  storage_size :: "collection \<Rightarrow> number"
  engine_version :: string
  client_version :: string
  locale_number :: "number \<Rightarrow> string"
  locale_date :: "number \<Rightarrow> string"
  client_connected :: bool
  host_running :: bool

type_synonym 'a io = "world \<Rightarrow> 'a outcome \<times> world"

definition io_return :: "'a \<Rightarrow> 'a io" where
  "io_return x = (\<lambda>w. (Resolved x, w))"

definition io_bind :: "'a io \<Rightarrow> ('a \<Rightarrow> 'b io) \<Rightarrow> 'b io" where
  "io_bind m f =
     (\<lambda>w. case m w of (Resolved x, w') \<Rightarrow> f x w' | (Rejected e, w') \<Rightarrow> (Rejected e, w'))"

definition io_catch :: "'a io \<Rightarrow> (error \<Rightarrow> 'a io) \<Rightarrow> 'a io" where
  "io_catch m h =
     (\<lambda>w. case m w of (Resolved x, w') \<Rightarrow> (Resolved x, w') | (Rejected e, w') \<Rightarrow> h e w')"


text \<open>The elements of a list handled one after the other, each awaited before the next.\<close>

primrec io_mapM :: "('a \<Rightarrow> 'b io) \<Rightarrow> 'a list \<Rightarrow> 'b list io" where
  "io_mapM f [] = io_return []"
| "io_mapM f (x # xs) =
     io_bind (f x) (\<lambda>y. io_bind (io_mapM f xs) (\<lambda>ys. io_return (y # ys)))"


subsection \<open>Console, clock and random source\<close>





text \<open>\<^verbatim>\<open>Date.now()\<close>: the next reading of the clock, an integer number of milliseconds.\<close>

definition Date_now :: "number io" where
  "Date_now =
     (\<lambda>w. (Resolved (Fin (of_int (clock w (clock_reads w)))),
           w\<lparr>clock_reads := Suc (clock_reads w)\<rparr>))"

definition Math_random :: "number io" where
  "Math_random =
     (\<lambda>w. (Resolved (Fin (random_source w (random_draws w))),
           w\<lparr>random_draws := Suc (random_draws w)\<rparr>))"

text \<open>
  \<^verbatim>\<open>new Date(t)\<close> keeps the time value \<open>TimeClip t\<close>: an integer number of milliseconds of
  magnitude at most \<open>8.64 * 10 ^ 15\<close>, or \<open>NaN\<close> for an invalid date.
\<close>

definition TimeClip :: "number \<Rightarrow> number" where
  "TimeClip t =
     (if \<not> is_finite t then NaN
      else if 8640000000000000 < \<bar>rv t\<bar> then NaN
      else Fin (of_int (if rv t < 0 then \<lceil>rv t\<rceil> else \<lfloor>rv t\<rfloor>)))"

definition new_Date :: "number \<Rightarrow> number" where
  "new_Date t = TimeClip t"

subsection \<open>The database, seen through the driver\<close>

text \<open>
  Every call to the driver or to the host is one external call: it fails with the
  failure the world holds for it, or else does what the server does.
\<close>

definition driver_call :: "'a io \<Rightarrow> 'a io" where
  "driver_call body =
     (\<lambda>w. case faults w (calls w) of
            Some e \<Rightarrow> (Rejected e, w\<lparr>calls := Suc (calls w)\<rparr>)
          | None \<Rightarrow> body (w\<lparr>calls := Suc (calls w)\<rparr>))"

datatype query = MatchAll | TimestampGt number | ValueGt number

fun matches :: "query \<Rightarrow> SyntheticRecord \<Rightarrow> bool" where
  "matches MatchAll d = True"
| "matches (TimestampGt t) d = fless t (timestamp d)"
| "matches (ValueGt v) d = fless v (value' d)"

text \<open>
  \<^verbatim>\<open>insertMany\<close> creates a plain collection that does not exist yet; the driver rejects an
  empty batch.
\<close>

definition insertMany :: "string \<Rightarrow> SyntheticRecord list \<Rightarrow> nat io" where
  "insertMany name data =
     (if data = [] then (\<lambda>w. (Rejected (External ''Invalid BulkOperation, Batch cannot be empty''), w))
      else driver_call (\<lambda>w.
        let c = (case collections w name of
                   None \<Rightarrow> \<lparr>options = None, documents = []\<rparr>
                 | Some c \<Rightarrow> c)
        in (Resolved (length data),
            w\<lparr>collections := (collections w)(name \<mapsto> c\<lparr>documents := documents c @ data\<rparr>)\<rparr>)))"

definition deleteMany :: "string \<Rightarrow> query \<Rightarrow> nat io" where
  "deleteMany name q =
     driver_call (\<lambda>w.
       case collections w name of
         None \<Rightarrow> (Resolved 0, w)
       | Some c \<Rightarrow>
           (Resolved (length (filter (matches q) (documents c))),
            w\<lparr>collections :=
                 (collections w)(name \<mapsto> c\<lparr>documents := filter (\<lambda>d. \<not> matches q d) (documents c)\<rparr>)\<rparr>))"


text \<open>Dropping a collection that does not exist is an error of the server.\<close>

definition drop_collection :: "string \<Rightarrow> bool io" where
  "drop_collection name =
     driver_call (\<lambda>w.
       case collections w name of
         None \<Rightarrow> (Rejected NamespaceNotFound, w)
       | Some c \<Rightarrow> (Resolved True, w\<lparr>collections := (collections w)(name := None)\<rparr>))"

definition createCollection :: "string \<Rightarrow> timeseries_options \<Rightarrow> string io" where
  "createCollection name opts =
     driver_call (\<lambda>w.
       case collections w name of
         Some c \<Rightarrow> (Rejected NamespaceExists, w)
       | None \<Rightarrow>
           (Resolved name,
            w\<lparr>collections := (collections w)(name \<mapsto> \<lparr>options = Some opts, documents = []\<rparr>)\<rparr>))"







section \<open>Timed operations\<close>



definition measureDeleteSpeed :: "string \<Rightarrow> query \<Rightarrow> number io" where
  "measureDeleteSpeed collection q =
     io_bind Date_now (\<lambda>startTime.
     io_bind (deleteMany collection q) (\<lambda>_.
     io_bind Date_now (\<lambda>endTime.
     io_return (fsub endTime startTime))))"









section \<open>Synthetic data\<close>

text \<open>
  \<^verbatim>\<open>Array.from({ length: count }, f)\<close> refuses a length above \<open>2 ^ 32 - 1\<close> and otherwise
  calls \<open>f\<close> on the indices \<open>0\<close> to \<open>count - 1\<close> in turn. Each record reads the clock and
  draws a random number of its own.
\<close>

definition generateRecord :: "nat \<Rightarrow> SyntheticRecord io" where
  "generateRecord i =
     io_bind Date_now (\<lambda>now.
     io_bind Math_random (\<lambda>r.
     io_return
       \<lparr> timestamp = new_Date (fsub now (fmul (Fin (of_nat i)) (Fin 1000))),
         value' = fmul r (Fin 100),
         meta = \<lparr> sensor = ''sensor'' @ Number_toString (Fin (of_nat (i mod 5))) \<rparr> \<rparr>))"

definition generateData :: "nat \<Rightarrow> SyntheticRecord list io" where
  "generateData count =
     (if 4294967295 < count then (\<lambda>w. (Rejected RangeError, w))
      else io_mapM generateRecord [0 ..< count])"

section \<open>The benchmark\<close>












definition timeSeriesCollection :: string where
  "timeSeriesCollection = ''timeSeriesCollection''"

definition timeseries :: timeseries_options where
  "timeseries = \<lparr> timeField = ''timestamp'', metaField = ''meta'', granularity = ''seconds'' \<rparr>"

text \<open>\<^verbatim>\<open>collection.drop().catch(() => { })\<close>: whatever the drop rejects with is discarded.\<close>

definition drop_ignoring_errors :: "string \<Rightarrow> bool io" where
  "drop_ignoring_errors name = io_catch (drop_collection name) (\<lambda>_. io_return False)"











text \<open>Lines 276 to 285: the time-series collection is dropped and created again before
  each delete trial.\<close>

definition timeSeriesDeleteTest :: "string \<Rightarrow> query \<Rightarrow> nat \<Rightarrow> number io" where
  "timeSeriesDeleteTest finalTimeSeriesCollection deleteQuery dataSize =
     io_bind (drop_ignoring_errors finalTimeSeriesCollection) (\<lambda>_.
     io_bind (createCollection timeSeriesCollection timeseries) (\<lambda>tempCollection.
     io_bind (generateData dataSize) (\<lambda>data.
     io_bind (insertMany tempCollection data) (\<lambda>_.
     measureDeleteSpeed tempCollection deleteQuery))))"









text \<open>
  A world in which the script may start: nothing printed, an empty database, no
  connection; the clock, the random source and the failures are given.
\<close>

definition start_world :: "(nat \<Rightarrow> int) \<Rightarrow> (nat \<Rightarrow> real) \<Rightarrow> (nat \<Rightarrow> error option) \<Rightarrow> world" where
  "start_world clk rnd flt =
     \<lparr> stdout = [], stderr = [], clock = clk, clock_reads = 0, random_source = rnd,
       random_draws = 0, faults = flt, calls = 0, collections = Map.empty,
       storage_size = (\<lambda>c. Fin (of_nat (length (documents c)))),
       engine_version = ''7.0.0'', client_version = ''6.0.0'',
       locale_number = Number_toString, locale_date = Number_toString,
       client_connected = False, host_running = False \<rparr>"

text \<open>
  Sample surroundings: a server that never fails, a clock that advances by one
  millisecond per reading and one that runs backwards, a random source that always
  draws \<open>0\<close>, a record, and a test function that fails.
\<close>

definition no_faults :: "nat \<Rightarrow> error option" where
  "no_faults k = None"

definition ticking_clock :: "nat \<Rightarrow> int" where
  "ticking_clock k = int k"


definition zero_draws :: "nat \<Rightarrow> real" where
  "zero_draws k = 0"

definition quiet_world :: world where
  "quiet_world = start_world ticking_clock zero_draws no_faults"


definition sample_record :: SyntheticRecord where
  "sample_record = \<lparr> timestamp = Fin 0, value' = Fin 0, meta = \<lparr> sensor = ''sensor0'' \<rparr> \<rparr>"


text \<open>A clock that jumps ahead by one second between two readings.\<close>

definition jumping_clock :: "nat \<Rightarrow> int" where
  "jumping_clock k = 1000 * int k"

definition jumping_world :: world where
  "jumping_world = start_world jumping_clock zero_draws no_faults"




section \<open>Rounding\<close>

lemma pow2_pos [simp]: "0 < pow2 e"
  by (simp add: pow2_def)

lemma pow2_nonzero [simp]: "pow2 e \<noteq> 0"
  by (simp add: pow2_def)

lemma pow2_powr: "pow2 e = 2 powr (of_int e)"
proof (cases "0 \<le> e")
  case True
  then have "2 powr (of_int e) = (2::real) ^ nat e"
    by (metis numeral_power_eq_of_nat_cancel_iff of_int_of_nat_eq of_nat_nat powr_realpow
        zero_less_numeral of_nat_numeral)
  with True show ?thesis by (simp add: pow2_def)
next
  case False
  then have "2 powr (of_int e) = 1 / (2::real) ^ nat (- e)"
    by (smt (verit) of_int_minus of_nat_nat powr_minus_divide powr_realpow of_int_of_nat_eq)
  with False show ?thesis by (simp add: pow2_def)
qed

lemma pow2_neg_nat: "pow2 (- int n) = 1 / 2 ^ n"
  by (simp add: pow2_powr powr_minus_divide powr_realpow)

lemma pow2_add: "pow2 (a + b) = pow2 a * pow2 b"
  by (simp add: pow2_powr powr_add)

lemma pow2_diff: "pow2 (a - b) = pow2 a / pow2 b"
  by (simp add: pow2_powr powr_diff)

lemma pow2_mono: "a \<le> b \<Longrightarrow> pow2 a \<le> pow2 b"
  by (simp add: pow2_powr)

lemma pow2_strict_mono: "a < b \<Longrightarrow> pow2 a < pow2 b"
  by (simp add: pow2_powr)

lemma pow2_le_iff: "pow2 a \<le> pow2 b \<longleftrightarrow> a \<le> b"
  by (simp add: pow2_powr)

lemma pow2_less_iff: "pow2 a < pow2 b \<longleftrightarrow> a < b"
  by (simp add: pow2_powr)

lemma pow2_nat: "pow2 (int n) = 2 ^ n"
  by (simp add: pow2_def)

lemma pow2_0: "pow2 0 = 1"
  by (simp add: pow2_def)

lemma pow2_1: "pow2 1 = 2"
  by (simp add: pow2_def)

lemma pow2_Suc: "pow2 (e + 1) = 2 * pow2 e"
  by (simp add: pow2_add pow2_1)

lemma int_log_bounds:
  assumes "2 \<le> b" and "1 \<le> n"
  shows "b ^ int_log b n \<le> n \<and> n < b ^ (int_log b n + 1)"
  using assms
proof (induction b n rule: int_log.induct)
  case (1 b n)
  show ?case
  proof (cases "n < b")
    case True
    then show ?thesis
      using 1(3) by (subst (1 2) int_log.simps) simp
  next
    case False
    then have nb: "\<not> (n < b \<or> b < 2)"
      using 1(2) by simp
    have bpos: "0 < b"
      using 1(2) by simp
    have "0 < n div b"
      using False bpos by (simp add: pos_imp_zdiv_pos_iff)
    then have q: "1 \<le> n div b"
      by simp
    from 1(1) [OF nb 1(2) q]
    have ih: "b ^ int_log b (n div b) \<le> n div b" "n div b < b ^ (int_log b (n div b) + 1)"
      by simp_all
    have s: "int_log b n = Suc (int_log b (n div b))"
      using nb by (subst int_log.simps) simp
    have dm: "b * (n div b) + n mod b = n"
      by simp
    have md: "0 \<le> n mod b" "n mod b < b"
      using bpos by simp_all
    have "b * b ^ int_log b (n div b) \<le> b * (n div b)"
      using ih(1) bpos by simp
    also have "\<dots> \<le> n"
      using dm md by linarith
    finally have lo: "b ^ int_log b n \<le> n"
      by (simp add: s)
    have "n div b + 1 \<le> b ^ (int_log b (n div b) + 1)"
      using ih(2) by simp
    then have "b * (n div b + 1) \<le> b * b ^ (int_log b (n div b) + 1)"
      using bpos by simp
    moreover have "n < b * (n div b) + b"
      using dm md by linarith
    then have "n < b * (n div b + 1)"
      by (simp add: distrib_left)
    ultimately have hi: "n < b ^ (int_log b n + 1)"
      by (simp add: s)
    show ?thesis
      using lo hi by simp
  qed
qed

lemma ilog2_bounds:
  assumes "0 < a"
  shows "pow2 (ilog2 a) \<le> a" and "a < pow2 (ilog2 a + 1)"
proof -
  have "pow2 (ilog2 a) \<le> a \<and> a < pow2 (ilog2 a + 1)"
  proof (cases "1 \<le> a")
    case True
    define n where "n = \<lfloor>a\<rfloor>"
    define L where "L = int_log 2 n"
    have n1: "1 \<le> n"
      using True by (simp add: n_def le_floor_iff)
    from int_log_bounds [of 2 n] n1 have b: "2 ^ L \<le> n" "n < 2 ^ (L + 1)"
      by (simp_all add: L_def)
    have il: "ilog2 a = int L"
      using True by (simp add: ilog2_def L_def n_def)
    have "(2::real) ^ L \<le> of_int n"
      using b(1) by (metis of_int_le_iff of_int_numeral of_int_power)
    also have "\<dots> \<le> a"
      by (simp add: n_def)
    finally have lo: "pow2 (ilog2 a) \<le> a"
      by (simp add: il pow2_nat)
    have "n + 1 \<le> 2 ^ (L + 1)"
      using b(2) by simp
    then have "(of_int (n + 1) :: real) \<le> 2 ^ (L + 1)"
      by (metis of_int_le_iff of_int_numeral of_int_power)
    moreover have "a < of_int (n + 1)"
      by (simp add: n_def)
    ultimately have "a < 2 ^ (L + 1)"
      by linarith
    moreover have "pow2 (ilog2 a + 1) = 2 ^ (L + 1)"
      using pow2_nat [of "L + 1"] by (simp add: il add.commute)
    ultimately show ?thesis
      using lo by simp
  next
    case False
    define c where "c = \<lceil>1 / a\<rceil>"
    define L where "L = int_log 2 (c - 1)"
    have inv: "1 < 1 / a"
      using False assms by simp
    then have c2: "2 \<le> c"
      unfolding c_def by (simp add: le_ceiling_iff)
    from int_log_bounds [of 2 "c - 1"] c2 have b: "2 ^ L \<le> c - 1" "c - 1 < 2 ^ (L + 1)"
      by (simp_all add: L_def)
    have il: "ilog2 a = - 1 - int L"
      using False by (simp add: ilog2_def L_def c_def)
    have "1 / a \<le> of_int c"
      by (simp add: c_def)
    also have "(of_int c :: real) \<le> 2 ^ (L + 1)"
      using b(2) by (metis of_int_le_iff of_int_numeral of_int_power zle_diff1_eq
          diff_add_cancel add.commute zless_imp_add1_zle)
    finally have "1 / a \<le> 2 ^ (L + 1)" .
    then have "1 / 2 ^ (L + 1) \<le> a"
      using assms by (simp add: field_simps)
    moreover have "ilog2 a = - int (L + 1)"
      by (simp add: il)
    then have "pow2 (ilog2 a) = 1 / 2 ^ (L + 1)"
      by (simp only: pow2_neg_nat)
    ultimately have lo: "pow2 (ilog2 a) \<le> a"
      by simp
    have "(2::real) ^ L \<le> of_int (c - 1)"
      using b(1) by (metis of_int_le_iff of_int_numeral of_int_power)
    also have "(of_int (c - 1) :: real) < 1 / a"
      by (simp add: c_def) linarith
    finally have "2 ^ L < 1 / a" .
    then have "a < 1 / 2 ^ L"
      using assms by (simp add: field_simps)
    moreover have "ilog2 a + 1 = - int L"
      by (simp add: il)
    then have "pow2 (ilog2 a + 1) = 1 / 2 ^ L"
      by (simp add: pow2_neg_nat)
    ultimately show ?thesis
      using lo by simp
  qed
  then show "pow2 (ilog2 a) \<le> a" and "a < pow2 (ilog2 a + 1)"
    by simp_all
qed

lemma ilog2_unique:
  assumes "0 < a" and "pow2 k \<le> a" and "a < pow2 (k + 1)"
  shows "ilog2 a = k"
proof -
  have "pow2 (ilog2 a) < pow2 (k + 1)"
    using ilog2_bounds(1) [OF assms(1)] assms(3) by linarith
  then have "ilog2 a < k + 1"
    by (simp add: pow2_less_iff)
  moreover have "pow2 k < pow2 (ilog2 a + 1)"
    using ilog2_bounds(2) [OF assms(1)] assms(2) by linarith
  then have "k < ilog2 a + 1"
    by (simp add: pow2_less_iff)
  ultimately show ?thesis by simp
qed

lemma ilog2_mono:
  assumes "0 < a" and "a \<le> b"
  shows "ilog2 a \<le> ilog2 b"
proof -
  have "pow2 (ilog2 a) < pow2 (ilog2 b + 1)"
    using ilog2_bounds(1) [OF assms(1)] ilog2_bounds(2) [of b] assms by linarith
  then show ?thesis
    by (simp add: pow2_less_iff)
qed

lemma round_half_even_of_int [simp]: "round_half_even (of_int k) = k"
  by (simp add: round_half_even_def)

lemma round_half_even_mono:
  assumes "x \<le> y"
  shows "round_half_even x \<le> round_half_even y"
proof (cases "\<lfloor>x\<rfloor> = \<lfloor>y\<rfloor>")
  case True
  then show ?thesis
    using assms by (auto simp: round_half_even_def Let_def)
next
  case False
  then have "\<lfloor>x\<rfloor> + 1 \<le> \<lfloor>y\<rfloor>"
    using floor_mono [OF assms] by simp
  moreover have "round_half_even x \<le> \<lfloor>x\<rfloor> + 1"
    by (simp add: round_half_even_def Let_def)
  moreover have "\<lfloor>y\<rfloor> \<le> round_half_even y"
    by (simp add: round_half_even_def Let_def)
  ultimately show ?thesis by simp
qed

lemma round_half_even_le:
  "x \<le> of_int k \<Longrightarrow> round_half_even x \<le> k"
  using round_half_even_mono [of x "of_int k"] by simp

lemma round_half_even_ge:
  "of_int k \<le> x \<Longrightarrow> k \<le> round_half_even x"
  using round_half_even_mono [of "of_int k" x] by simp

lemma ulp_exp_mono: "0 < a \<Longrightarrow> a \<le> b \<Longrightarrow> ulp_exp a \<le> ulp_exp b"
  using ilog2_mono [of a b] by (simp add: ulp_exp_def)

lemma ulp_exp_ge: "- 1074 \<le> ulp_exp a"
  by (simp add: ulp_exp_def)

lemma round64_pos:
  assumes "0 < r"
  shows "round64 r =
      (if 971 < ulp_exp r \<or> (ulp_exp r = 971 \<and> significand r = 2 ^ 53) then PosInf
       else if significand r = 0 then Fin 0
       else Fin (of_int (significand r) * pow2 (ulp_exp r)))"
proof -
  have nz: "r \<noteq> 0" and nn: "\<not> r < 0" and ab: "\<bar>r\<bar> = r"
    using assms by simp_all
  show ?thesis
    by (simp only: round64_def Let_def nz nn ab if_False ulp_exp_def significand_def)
qed

text \<open>The significand is below \<open>2 ^ 53\<close> before rounding, and at least \<open>2 ^ 52\<close> outside
  the subnormal range.\<close>

lemma scaled_upper:
  assumes "0 < r"
  shows "r / pow2 (ulp_exp r) < 2 ^ 53"
proof -
  have "ilog2 r + 1 \<le> ulp_exp r + 53"
    by (simp add: ulp_exp_def)
  then have "pow2 (ilog2 r + 1) \<le> pow2 (ulp_exp r + 53)"
    by (rule pow2_mono)
  then have "r < pow2 (ulp_exp r + 53)"
    using ilog2_bounds(2) [OF assms] by linarith
  also have "\<dots> = pow2 (ulp_exp r) * 2 ^ 53"
    using pow2_nat [of 53] by (simp add: pow2_add)
  finally show ?thesis
    by (simp add: pos_divide_less_eq mult.commute)
qed

lemma significand_upper:
  assumes "0 < r"
  shows "significand r \<le> 2 ^ 53"
proof -
  have "r / pow2 (ulp_exp r) \<le> of_int (2 ^ 53)"
    using scaled_upper [OF assms] by simp
  then show ?thesis
    unfolding significand_def by (rule round_half_even_le)
qed

lemma significand_nonneg:
  assumes "0 < r"
  shows "0 \<le> significand r"
proof -
  have "0 \<le> r / pow2 (ulp_exp r)"
    using assms by (simp add: less_imp_le)
  then have "of_int 0 \<le> r / pow2 (ulp_exp r)"
    by simp
  then show ?thesis
    unfolding significand_def by (rule round_half_even_ge)
qed

lemma scaled_lower:
  assumes "0 < r" and "- 1074 < ulp_exp r"
  shows "2 ^ 52 \<le> r / pow2 (ulp_exp r)"
proof -
  have e: "ulp_exp r = ilog2 r - 52"
    using assms(2) by (simp add: ulp_exp_def max_def split: if_splits)
  have "pow2 (ulp_exp r) * 2 ^ 52 = pow2 (ilog2 r)"
    using pow2_nat [of 52] by (simp add: e pow2_diff)
  also have "\<dots> \<le> r"
    by (rule ilog2_bounds(1) [OF assms(1)])
  finally show ?thesis
    by (simp add: pos_le_divide_eq mult.commute)
qed

lemma significand_lower:
  assumes "0 < r" and "- 1074 < ulp_exp r"
  shows "2 ^ 52 \<le> significand r"
proof -
  have "of_int (2 ^ 52) \<le> r / pow2 (ulp_exp r)"
    using scaled_lower [OF assms] by simp
  then show ?thesis
    unfolding significand_def by (rule round_half_even_ge)
qed

lemma round64_minus:
  assumes "r \<noteq> 0"
  shows "round64 (- r) = fneg (round64 r)"
proof -
  define e where "e = max (ilog2 \<bar>r\<bar> - 52) (- 1074)"
  define m where "m = round_half_even (\<bar>r\<bar> / pow2 e)"
  define v where "v = of_int m * pow2 e"
  have v0: "v = 0 \<longleftrightarrow> m = 0"
    by (simp add: v_def)
  have A: "round64 r =
      (if 971 < e \<or> (e = 971 \<and> m = 2 ^ 53) then (if r < 0 then NegInf else PosInf)
       else if m = 0 then (if r < 0 then NegZero else Fin 0)
       else Fin (if r < 0 then - v else v))"
    by (simp only: round64_def Let_def e_def m_def v_def assms if_False)
  have B: "round64 (- r) =
      (if 971 < e \<or> (e = 971 \<and> m = 2 ^ 53) then (if 0 < r then NegInf else PosInf)
       else if m = 0 then (if 0 < r then NegZero else Fin 0)
       else Fin (if 0 < r then - v else v))"
    by (simp only: round64_def Let_def e_def m_def v_def assms if_False
        neg_equal_0_iff_equal abs_minus_cancel neg_less_0_iff_less)
  show ?thesis
    unfolding A B using assms v0 by auto
qed

lemma round64_pos':
  assumes "0 < r"
  shows "round64 r = (if overflows r then PosInf else Fin (rounded r))"
  using round64_pos [OF assms] by (auto simp: overflows_def rounded_def)

lemma rounded_nonneg: "0 < r \<Longrightarrow> 0 \<le> rounded r"
  using significand_nonneg [of r] by (simp add: rounded_def zero_le_mult_iff less_imp_le)

text \<open>A significand below \<open>2 ^ 53\<close> with an exponent in range is kept as it is.\<close>

lemma round64_exact_pos:
  assumes "0 < m" and "m < 2 ^ 53" and "- 1074 \<le> e" and "e \<le> 971"
  shows "round64 (of_int m * pow2 e) = Fin (of_int m * pow2 e)"
    and "\<not> overflows (of_int m * pow2 e)"
    and "rounded (of_int m * pow2 e) = of_int m * pow2 e"
proof -
  define r where "r = of_int m * pow2 e"
  have rpos: "0 < r"
    using assms(1) by (simp add: r_def)
  have "r < 2 ^ 53 * pow2 e"
  proof -
    have "(of_int m :: real) < of_int (2 ^ 53)"
      using assms(2) by (simp only: of_int_less_iff)
    then show ?thesis
      by (simp add: r_def)
  qed
  also have "\<dots> = pow2 (e + 53)"
    using pow2_nat [of 53] by (simp add: pow2_add)
  finally have "pow2 (ilog2 r) < pow2 (e + 53)"
    using ilog2_bounds(1) [OF rpos] by linarith
  then have "ilog2 r < e + 53"
    by (simp add: pow2_less_iff)
  then have E: "ulp_exp r \<le> e"
    using assms(3) by (simp add: ulp_exp_def)
  define d where "d = nat (e - ulp_exp r)"
  have ed: "e = ulp_exp r + int d"
    using E by (simp add: d_def)
  have pe: "pow2 e = pow2 (ulp_exp r) * 2 ^ d"
    by (subst ed) (simp add: pow2_add pow2_nat)
  have "r = of_int m * pow2 e"
    by (simp add: r_def)
  also have "\<dots> = of_int m * (pow2 (ulp_exp r) * 2 ^ d)"
    by (simp only: pe)
  finally have rr: "r = of_int (m * 2 ^ d) * pow2 (ulp_exp r)"
    by (simp add: mult_ac)
  have scaled: "r / pow2 (ulp_exp r) = of_int (m * 2 ^ d)"
    by (subst rr) simp
  have sg: "significand r = m * 2 ^ d"
    by (simp only: significand_def scaled round_half_even_of_int)
  have same: "rounded r = r"
    unfolding rounded_def sg using rr by simp
  have no: "\<not> overflows r"
  proof
    assume "overflows r"
    then have o: "ulp_exp r = 971" "significand r = 2 ^ 53"
      using E assms(4) by (simp_all add: overflows_def)
    have "e = 971"
      using o(1) E assms(4) by simp
    then have "d = 0"
      using o(1) by (simp add: d_def)
    then have "m = 2 ^ 53"
      using sg o(2) by simp
    then show False
      using assms(2) by simp
  qed
  show "round64 (of_int m * pow2 e) = Fin (of_int m * pow2 e)"
    using round64_pos' [OF rpos] no same by (simp add: r_def)
  show "\<not> overflows (of_int m * pow2 e)"
    using no by (simp add: r_def)
  show "rounded (of_int m * pow2 e) = of_int m * pow2 e"
    using same by (simp add: r_def)
qed

lemma round64_exact:
  assumes "m \<noteq> 0" and "\<bar>m\<bar> < 2 ^ 53" and "- 1074 \<le> e" and "e \<le> 971"
  shows "round64 (of_int m * pow2 e) = Fin (of_int m * pow2 e)"
proof (cases "0 < m")
  case True
  then show ?thesis
    using round64_exact_pos(1) [of m e] assms by simp
next
  case False
  then have neg: "0 < - m" "- m < 2 ^ 53"
    using assms by simp_all
  have nz: "of_int (- m) * pow2 e \<noteq> 0"
    using assms(1) by simp
  have "round64 (- (of_int (- m) * pow2 e)) = fneg (round64 (of_int (- m) * pow2 e))"
    by (rule round64_minus [OF nz])
  also have "\<dots> = fneg (Fin (of_int (- m) * pow2 e))"
    using round64_exact_pos(1) [OF neg assms(3,4)] by simp
  finally show ?thesis
    using assms(1) by simp
qed

lemma round64_of_int:
  assumes "\<bar>k\<bar> \<le> 2 ^ 53"
  shows "round64 (of_int k) = Fin (of_int k)"
proof (cases "k = 0")
  case True
  then show ?thesis by (simp add: round64_def)
next
  case False
  show ?thesis
  proof (cases "\<bar>k\<bar> < 2 ^ 53")
    case True
    then show ?thesis
      using round64_exact [of k 0] False by (simp add: pow2_0)
  next
    case False
    then have "k = 2 ^ 53 \<or> k = - (2 ^ 53)"
      using assms by linarith
    then have "of_int k = (of_int (k div 2) :: real) * pow2 1" and "\<bar>k div 2\<bar> < 2 ^ 53"
      and "k div 2 \<noteq> 0"
      by (auto simp: pow2_1)
    then show ?thesis
      using round64_exact [of "k div 2" 1] by simp
  qed
qed

text \<open>A finite non-zero binary64 number is a significand times a power of two.\<close>

lemma double_repr_pos:
  assumes "round64 r = Fin r" and "0 < r"
  shows "\<exists>m e. r = of_int m * pow2 e \<and> 0 < m \<and> m < 2 ^ 53 \<and> - 1074 \<le> e \<and> e \<le> 971"
proof -
  from assms round64_pos' [OF assms(2)] have no: "\<not> overflows r" and r: "rounded r = r"
    by (auto split: if_splits)
  have m0: "0 < significand r"
    using r assms(2) significand_nonneg [OF assms(2)]
    by (cases "significand r = 0") (auto simp: rounded_def)
  have e1: "- 1074 \<le> ulp_exp r" "ulp_exp r \<le> 971"
    using no ulp_exp_ge [of r] by (auto simp: overflows_def)
  show ?thesis
  proof (cases "significand r < 2 ^ 53")
    case True
    then show ?thesis
      using r m0 e1 by (intro exI [of _ "significand r"] exI [of _ "ulp_exp r"])
        (simp add: rounded_def)
  next
    case False
    then have s: "significand r = 2 ^ 53"
      using significand_upper [OF assms(2)] by simp
    then have e2: "ulp_exp r \<le> 970"
      using no e1 by (simp add: overflows_def)
    have "r = of_int (2 ^ 52) * pow2 (ulp_exp r + 1)"
      using r s by (simp add: rounded_def pow2_Suc)
    then show ?thesis
      using e1 e2 by (intro exI [of _ "2 ^ 52"] exI [of _ "ulp_exp r + 1"]) simp
  qed
qed

lemma fle_refl: "x \<noteq> NaN \<Longrightarrow> fle x x"
  by (cases x) (simp_all add: fle_def fless_def)

lemma fle_trans: "fle x y \<Longrightarrow> fle y z \<Longrightarrow> fle x z"
  by (cases x; cases y; cases z) (auto simp: fle_def fless_def)

lemma fle_fneg: "fle x y \<Longrightarrow> fle (fneg y) (fneg x)"
  by (cases x; cases y) (auto simp: fle_def fless_def)

lemma fle_Fin [simp]: "fle (Fin a) (Fin b) \<longleftrightarrow> a \<le> b"
  by (auto simp: fle_def fless_def)

lemma fle_PosInf [simp]: "fle x PosInf \<longleftrightarrow> x \<noteq> NaN"
  by (simp add: fle_def fless_def)

lemma round64_not_NaN [simp]: "round64 r \<noteq> NaN"
  by (simp add: round64_def Let_def)

lemma round64_mono_pos:
  assumes "0 < x" and "x \<le> y"
  shows "fle (round64 x) (round64 y)"
proof -
  have ypos: "0 < y"
    using assms by simp
  have ee: "ulp_exp x \<le> ulp_exp y"
    by (rule ulp_exp_mono [OF assms])
  have A: "rounded x \<le> rounded y"
  proof (cases "ulp_exp x = ulp_exp y")
    case True
    have "x / pow2 (ulp_exp y) \<le> y / pow2 (ulp_exp y)"
      using assms(2) by (simp add: divide_right_mono less_imp_le)
    then have "significand x \<le> significand y"
      unfolding significand_def True by (rule round_half_even_mono)
    then show ?thesis
      by (simp add: rounded_def True)
  next
    case False
    then have lt: "ulp_exp x + 1 \<le> ulp_exp y"
      using ee by simp
    then have ny: "- 1074 < ulp_exp y"
      using ulp_exp_ge [of x] by simp
    define B where "B = pow2 (ulp_exp y + 52)"
    have "B = of_int (2 ^ 52) * pow2 (ulp_exp y)"
      using pow2_nat [of 52] by (simp add: B_def pow2_add)
    also have "\<dots> \<le> of_int (significand y) * pow2 (ulp_exp y)"
      using significand_lower [OF ypos ny]
      by (simp only: mult_le_cancel_right_pos pow2_pos of_int_le_iff)
    finally have hi: "B \<le> rounded y"
      unfolding rounded_def .
    define d where "d = nat (ulp_exp y + 52 - ulp_exp x)"
    have dd: "ulp_exp y + 52 = ulp_exp x + int d"
      using lt by (simp add: d_def)
    have Bx: "B = of_int (2 ^ d) * pow2 (ulp_exp x)"
      unfolding B_def dd by (simp add: pow2_add pow2_nat)
    have "ilog2 x + 1 \<le> ulp_exp x + 53"
      by (simp add: ulp_exp_def)
    then have "ilog2 x + 1 \<le> ulp_exp y + 52"
      using lt by simp
    then have "pow2 (ilog2 x + 1) \<le> B"
      unfolding B_def by (rule pow2_mono)
    then have "x \<le> B"
      using ilog2_bounds(2) [OF assms(1)] by linarith
    then have "x / pow2 (ulp_exp x) \<le> of_int (2 ^ d)"
      unfolding Bx by (simp add: pos_divide_le_eq)
    then have "significand x \<le> 2 ^ d"
      unfolding significand_def by (rule round_half_even_le)
    then have "of_int (significand x) * pow2 (ulp_exp x) \<le> of_int (2 ^ d) * pow2 (ulp_exp x)"
      by (simp only: mult_le_cancel_right_pos pow2_pos of_int_le_iff)
    then have "rounded x \<le> B"
      by (simp add: rounded_def Bx)
    then show ?thesis
      using hi by linarith
  qed
  have B: "overflows x \<Longrightarrow> overflows y"
  proof -
    assume o: "overflows x"
    show "overflows y"
    proof (cases "971 < ulp_exp y")
      case True
      then show ?thesis by (simp add: overflows_def)
    next
      case False
      then have ex: "ulp_exp x = 971" "significand x = 2 ^ 53" and ey: "ulp_exp y = 971"
        using o ee by (auto simp: overflows_def)
      have "x / pow2 (ulp_exp y) \<le> y / pow2 (ulp_exp y)"
        using assms(2) by (simp add: divide_right_mono less_imp_le)
      then have "significand x \<le> significand y"
        unfolding significand_def ex(1) ey by (rule round_half_even_mono)
      then have "significand y = 2 ^ 53"
        using ex(2) significand_upper [OF ypos] by simp
      then show ?thesis
        using ey by (simp add: overflows_def)
    qed
  qed
  show ?thesis
    using A B by (auto simp: round64_pos' [OF assms(1)] round64_pos' [OF ypos])
qed

lemma round64_nonneg:
  assumes "0 \<le> r"
  shows "fle (Fin 0) (round64 r)"
proof (cases "r = 0")
  case True
  then show ?thesis by (simp add: round64_def)
next
  case False
  then have "0 < r"
    using assms by simp
  then show ?thesis
    using round64_pos' [of r] rounded_nonneg [of r] by simp
qed

lemma round64_nonpos:
  assumes "r \<le> 0"
  shows "fle (round64 r) (Fin 0)"
proof (cases "r = 0")
  case True
  then show ?thesis by (simp add: round64_def)
next
  case False
  then have "round64 r = fneg (round64 (- r))"
    using round64_minus [of "- r"] by simp
  moreover have "fle (Fin 0) (round64 (- r))"
    using assms by (intro round64_nonneg) simp
  ultimately show ?thesis
    using fle_fneg [of "Fin 0" "round64 (- r)"]
    by (cases "round64 (- r)") (auto simp: fle_def fless_def)
qed

lemma round64_mono:
  assumes "x \<le> y"
  shows "fle (round64 x) (round64 y)"
proof -
  consider "0 < x" | "x \<le> 0" "0 \<le> y" | "y < 0"
    by linarith
  then show ?thesis
  proof cases
    case 1
    then show ?thesis
      by (rule round64_mono_pos [OF _ assms])
  next
    case 2
    then show ?thesis
      using fle_trans [OF round64_nonpos round64_nonneg] by simp
  next
    case 3
    then have "0 < - y" "- y \<le> - x" and nz: "x \<noteq> 0" "y \<noteq> 0"
      using assms by simp_all
    then have "fle (round64 (- y)) (round64 (- x))"
      by (intro round64_mono_pos)
    then have "fle (fneg (round64 (- x))) (fneg (round64 (- y)))"
      by (rule fle_fneg)
    then show ?thesis
      using round64_minus [of "- x"] round64_minus [of "- y"] nz by simp
  qed
qed

lemma round64_fixed_minus:
  assumes "round64 r = Fin r" and "r \<noteq> 0"
  shows "round64 (- r) = Fin (- r)"
  using assms round64_minus [of r] by simp

section \<open>Digits\<close>





section \<open>The improvement label\<close>








section \<open>A baseline of zero\<close>

lemma improvement_0_0: "fmul (fdiv (fsub (Fin 0) (Fin 0)) (Fin 0)) (Fin 100) = NaN"
  by (simp add: fmul_def fdiv_def fsub_def fadd_def round64_def)

lemma improvement_0_positive:
  assumes "double c" and "fless (Fin 0) c"
  shows "fmul (fdiv (fsub (Fin 0) c) (Fin 0)) (Fin 100) = NegInf"
proof (cases c)
  case (Fin r)
  with assms have r: "0 < r" "round64 r = Fin r"
    by (simp_all add: fless_def double_def)
  then have "round64 (- r) = Fin (- r)"
    using round64_fixed_minus [of r] by simp
  with r Fin show ?thesis
    by (simp add: fmul_def fdiv_def fsub_def fadd_def signed_inf_def)
qed (use assms in \<open>simp_all add: fless_def fmul_def fdiv_def fsub_def fadd_def signed_inf_def\<close>)

lemma double_3: "double (Fin 3)"
  unfolding double_def by code_simp

text \<open>
  C10. With a baseline of \<open>0\<close> the function raises nothing. For a comparison of \<open>0\<close> the
  percentage is \<open>0 / 0 * 100 = NaN\<close>, neither positive nor negative, and the label is the
  equal one. For a comparison above \<open>0\<close> the percentage is \<open>-\<infinity>\<close> and the label is the
  slower one, carrying the magnitude \<^verbatim>\<open>Infinity\<close>.
\<close>

theorem calculateImprovement_zero_baseline:
  "fmul (fdiv (fsub (Fin 0) (Fin 0)) (Fin 0)) (Fin 100) = NaN
   \<and> calculateImprovement (Fin 0) (Fin 0) = yellow_circle @ '' '' @ word_same
   \<and> (double comparison \<and> fless (Fin 0) comparison \<longrightarrow>
        fmul (fdiv (fsub (Fin 0) comparison) (Fin 0)) (Fin 100) = NegInf
      \<and> calculateImprovement (Fin 0) comparison
          = red_circle @ '' Infinity% '' @ word_slower)"
proof (intro conjI impI)
  show "fmul (fdiv (fsub (Fin 0) (Fin 0)) (Fin 0)) (Fin 100) = NaN"
    by (rule improvement_0_0)
  show "calculateImprovement (Fin 0) (Fin 0) = yellow_circle @ '' '' @ word_same"
    by (simp add: calculateImprovement_def improvement_0_0 fless_def)
  assume c: "double comparison \<and> fless (Fin 0) comparison"
  then show p: "fmul (fdiv (fsub (Fin 0) comparison) (Fin 0)) (Fin 100) = NegInf"
    by (simp add: improvement_0_positive)
  show "calculateImprovement (Fin 0) comparison = red_circle @ '' Infinity% '' @ word_slower"
    by (simp add: calculateImprovement_def p fless_def toFixed_def)
qed

theorem calculateImprovement_zero_baseline_witness:
  "double (Fin 3) \<and> fless (Fin 0) (Fin 3)
   \<and> fmul (fdiv (fsub (Fin 0) (Fin 3)) (Fin 0)) (Fin 100) = NegInf
   \<and> calculateImprovement (Fin 0) (Fin 3) = red_circle @ '' Infinity% '' @ word_slower"
  using calculateImprovement_zero_baseline [of "Fin 3"] double_3
  by (simp add: fless_def)

section \<open>Empty input\<close>

text \<open>
  C9. \<open>calculateStats\<close> has no guard for the empty series and raises nothing on it: the
  sum \<open>0\<close> divided by the length \<open>0\<close> is \<open>NaN\<close>, and the summary is returned with \<open>NaN\<close> as
  mean, standard deviation and median (the extrema are those of no argument at all,
  \<open>+\<infinity>\<close> and \<open>-\<infinity>\<close>).
\<close>

theorem calculateStats_empty:
  "calculateStats [] =
     \<lparr> mean = NaN, stats_min = PosInf, stats_max = NegInf, stdDev = NaN, median = NaN \<rparr>"
  by (simp add: calculateStats_def array_sort_def of_length_def fdiv_def fadd_def num_at_def
      Math_min_def Math_max_def)

section \<open>Awaiting and catching\<close>

lemma io_bind_resolved:
  "m w = (Resolved x, w') \<Longrightarrow> io_bind m f w = f x w'"
  by (simp add: io_bind_def)

lemma io_bind_rejected:
  "m w = (Rejected e, w') \<Longrightarrow> io_bind m f w = (Rejected e, w')"
  by (simp add: io_bind_def)


lemma driver_call_ok:
  "faults w (calls w) = None \<Longrightarrow> driver_call body w = body (w\<lparr>calls := Suc (calls w)\<rparr>)"
  by (simp add: driver_call_def)

lemma driver_call_fault:
  "faults w (calls w) = Some e \<Longrightarrow> driver_call body w = (Rejected e, w\<lparr>calls := Suc (calls w)\<rparr>)"
  by (simp add: driver_call_def)

lemma drop_missing:
  assumes "collections w name = None" and "faults w (calls w) = None"
  shows "drop_collection name w = (Rejected NamespaceNotFound, w\<lparr>calls := Suc (calls w)\<rparr>)"
  using assms by (simp add: drop_collection_def driver_call_def)

lemma drop_present:
  assumes "collections w name = Some c" and "faults w (calls w) = None"
  shows "drop_collection name w =
           (Resolved True, w\<lparr>calls := Suc (calls w), collections := (collections w)(name := None)\<rparr>)"
  using assms by (simp add: drop_collection_def driver_call_def)

lemma drop_ignoring_missing:
  assumes "collections w name = None" and "faults w (calls w) = None"
  shows "drop_ignoring_errors name w = (Resolved False, w\<lparr>calls := Suc (calls w)\<rparr>)"
  using assms by (simp add: drop_ignoring_errors_def io_catch_def drop_missing io_return_def)

lemma drop_ignoring_present:
  assumes "collections w name = None" and "faults w (calls w) = None"
  shows "drop_ignoring_errors name (w\<lparr>collections := (collections w)(name \<mapsto> c)\<rparr>)
           = (Resolved True, w\<lparr>calls := Suc (calls w)\<rparr>)"
proof -
  let ?w = "w\<lparr>collections := (collections w)(name \<mapsto> c)\<rparr>"
  have "drop_collection name ?w =
      (Resolved True, ?w\<lparr>calls := Suc (calls ?w), collections := (collections ?w)(name := None)\<rparr>)"
    using assms by (intro drop_present [where c = c]) simp_all
  moreover have "?w\<lparr>calls := Suc (calls ?w), collections := (collections ?w)(name := None)\<rparr>
      = w\<lparr>calls := Suc (calls w)\<rparr>"
    using assms by (simp add: fun_upd_idem)
  ultimately show ?thesis
    by (simp add: drop_ignoring_errors_def io_catch_def)
qed

text \<open>
  C8. A cleanup step drops the time-series collection with
  \<^verbatim>\<open>drop().catch(() => { })\<close>. When the collection does not exist the server answers with
  an error (namespace not found); the error is caught, nothing is printed, and the world
  left behind is the one left by dropping a collection that did exist, so whatever the
  script does next (the rest of the cleanup step, a delete trial) is the same in both
  cases.
\<close>

theorem drop_missing_collection_ignored:
  "collections w name = None \<Longrightarrow> faults w (calls w) = None \<Longrightarrow>
     drop_collection name w = (Rejected NamespaceNotFound, w\<lparr>calls := Suc (calls w)\<rparr>)
   \<and> drop_ignoring_errors name w = (Resolved False, w\<lparr>calls := Suc (calls w)\<rparr>)
   \<and> snd (drop_ignoring_errors name (w\<lparr>collections := (collections w)(name \<mapsto> c)\<rparr>))
       = snd (drop_ignoring_errors name w)
   \<and> io_bind (drop_ignoring_errors name) (\<lambda>_. rest) (w\<lparr>collections := (collections w)(name \<mapsto> c)\<rparr>)
       = io_bind (drop_ignoring_errors name) (\<lambda>_. rest) w
   \<and> timeSeriesDeleteTest name q n (w\<lparr>collections := (collections w)(name \<mapsto> c)\<rparr>)
       = timeSeriesDeleteTest name q n w"
  by (simp add: drop_missing drop_ignoring_missing drop_ignoring_present io_bind_def
      timeSeriesDeleteTest_def)

theorem drop_missing_collection_ignored_witness:
  "collections quiet_world timeSeriesCollection = None
   \<and> faults quiet_world (calls quiet_world) = None
   \<and> fst (drop_collection timeSeriesCollection quiet_world) = Rejected NamespaceNotFound
   \<and> fst (drop_ignoring_errors timeSeriesCollection quiet_world) = Resolved False
   \<and> snd (drop_ignoring_errors timeSeriesCollection
         (quiet_world\<lparr>collections := (collections quiet_world)
            (timeSeriesCollection \<mapsto> \<lparr>options = Some timeseries, documents = [sample_record]\<rparr>)\<rparr>))
       = snd (drop_ignoring_errors timeSeriesCollection quiet_world)"
proof -
  have absent: "collections quiet_world timeSeriesCollection = None"
    by (simp add: quiet_world_def start_world_def)
  have quiet: "faults quiet_world (calls quiet_world) = None"
    by (simp add: quiet_world_def start_world_def no_faults_def)
  show ?thesis
    using drop_missing_collection_ignored
      [where w = quiet_world and name = timeSeriesCollection
         and c = "\<lparr>options = Some timeseries, documents = [sample_record]\<rparr>"
         and rest = "io_return ()" and q = MatchAll and n = 1, OF absent quiet]
      absent quiet
    by simp
qed

section \<open>The collections after the insert phase\<close>












section \<open>Repeated trials\<close>


lemma io_bind_return_right: "io_bind m io_return = m"
  by (auto simp: io_bind_def io_return_def fun_eq_iff split: prod.splits outcome.splits)







section \<open>Durations\<close>

















section \<open>Failures and the end of the process\<close>














section \<open>Synthetic records\<close>

lemma double_below_one:
  assumes d: "round64 r = Fin r" and lo: "1 / 2 \<le> r" and hi: "r < 1"
  shows "r \<le> 1 - 1 / 2 ^ 53"
proof -
  have pos: "0 < r"
    using lo by simp
  have "ilog2 r = - 1"
    by (rule ilog2_unique) (use lo hi in \<open>simp_all add: pow2_def\<close>)
  then have u: "ulp_exp r = - 53"
    by (simp add: ulp_exp_def)
  from round64_pos' [OF pos] d have "rounded r = r"
    by (auto split: if_splits)
  then have r: "r = of_int (significand r) / 2 ^ 53"
    by (simp add: rounded_def u pow2_def)
  with hi have "of_int (significand r) < (2::real) ^ 53"
    by (simp add: field_simps)
  then have "of_int (significand r) < (of_int (2 ^ 53) :: real)"
    by simp
  then have "significand r < 2 ^ 53"
    by (simp only: of_int_less_iff)
  then have "significand r \<le> 2 ^ 53 - 1"
    by simp
  then have "(of_int (significand r) :: real) \<le> of_int (2 ^ 53 - 1)"
    by (simp only: of_int_le_iff)
  then have "(of_int (significand r) :: real) \<le> 2 ^ 53 - 1"
    by simp
  then have "of_int (significand r) / 2 ^ 53 \<le> ((2::real) ^ 53 - 1) / 2 ^ 53"
    by (simp add: divide_right_mono)
  also have "((2::real) ^ 53 - 1) / 2 ^ 53 = 1 - 1 / 2 ^ 53"
    by (simp add: field_simps)
  finally show ?thesis
    using r by simp
qed

lemma round64_below_100: "round64 (100 - 100 / 2 ^ 53) = Fin (100 - 1 / 2 ^ 46)"
  by code_simp

lemma Number_toString_digits:
  "Number_toString (Fin 0) = ''0''" "Number_toString (Fin 1) = ''1''"
  "Number_toString (Fin 2) = ''2''" "Number_toString (Fin 3) = ''3''"
  "Number_toString (Fin 4) = ''4''"
  by code_simp+

lemma fless_of_fle: "fle x (Fin a) \<Longrightarrow> a < b \<Longrightarrow> fless x (Fin b)"
  by (cases x) (auto simp: fle_def fless_def split: if_splits)

lemma random_value_range:
  assumes d: "double (Fin r)" and lo: "0 \<le> r" and hi: "r < 1"
  shows "fle (Fin 0) (fmul (Fin r) (Fin 100))" and "fless (fmul (Fin r) (Fin 100)) (Fin 100)"
proof -
  show "fle (Fin 0) (fmul (Fin r) (Fin 100))"
  proof (cases "r = 0")
    case True
    then show ?thesis
      by (simp add: fmul_def signed_zero_def)
  next
    case False
    then have "fmul (Fin r) (Fin 100) = round64 (r * 100)"
      by (simp add: fmul_def)
    moreover have "fle (Fin 0) (round64 (r * 100))"
      by (rule round64_nonneg) (use lo in simp)
    ultimately show ?thesis
      by simp
  qed
  show "fless (fmul (Fin r) (Fin 100)) (Fin 100)"
  proof (cases "r = 0")
    case True
    then show ?thesis
      by (simp add: fmul_def signed_zero_def fless_def)
  next
    case False
    then have m: "fmul (Fin r) (Fin 100) = round64 (r * 100)"
      by (simp add: fmul_def)
    have r: "round64 r = Fin r"
      using d by (simp add: double_def)
    have "r \<le> 1 - 1 / 2 ^ 53"
    proof (cases "1 / 2 \<le> r")
      case True
      then show ?thesis
        by (rule double_below_one [OF r _ hi])
    next
      case False
      then show ?thesis
        by simp
    qed
    then have "r * 100 \<le> 100 - 100 / 2 ^ 53"
      by simp
    then have "fle (round64 (r * 100)) (round64 (100 - 100 / 2 ^ 53))"
      by (rule round64_mono)
    then have "fle (round64 (r * 100)) (Fin (100 - 1 / 2 ^ 46))"
      by (simp only: round64_below_100)
    then show ?thesis
      unfolding m by (rule fless_of_fle) simp
  qed
qed

lemma timestamp_exact:
  assumes lo: "0 \<le> c" and hi: "c \<le> 8640000000000000" and i: "i \<le> 4294967295"
  shows "new_Date (fsub (Fin (of_int c)) (fmul (Fin (of_nat i)) (Fin 1000)))
          = Fin (of_int (c - 1000 * int i))"
proof -
  have d: "round64 (of_int (c - 1000 * int i)) = Fin (of_int (c - 1000 * int i))"
    by (rule round64_of_int) (use lo hi i in simp)
  have s: "fsub (Fin (of_int c)) (fmul (Fin (of_nat i)) (Fin 1000))
      = Fin (of_int (c - 1000 * int i))"
  proof (cases "i = 0")
    case True
    then show ?thesis
      using d by (simp add: fsub_def fmul_def signed_zero_def fadd_def)
  next
    case False
    have "round64 (of_int (int i * 1000)) = Fin (of_int (int i * 1000))"
      by (rule round64_of_int) (use i in simp)
    then have "fmul (Fin (of_nat i)) (Fin 1000) = Fin (of_nat i * 1000)"
      using False by (simp add: fmul_def)
    then show ?thesis
      using d False by (simp add: fsub_def fadd_def algebra_simps)
  qed
  have "\<bar>real_of_int (c - 1000 * int i)\<bar> \<le> 8640000000000000"
  proof -
    have "\<bar>c - 1000 * int i\<bar> \<le> 8640000000000000"
      using lo hi i by simp
    then have "real_of_int \<bar>c - 1000 * int i\<bar> \<le> real_of_int 8640000000000000"
      by (simp only: of_int_le_iff)
    then show ?thesis
      by simp
  qed
  then show ?thesis
    unfolding new_Date_def s TimeClip_def by (simp del: of_int_diff of_int_mult)
qed

lemma io_mapM_generateRecord:
  "io_mapM generateRecord [a ..< a + n] w =
     (Resolved (map (\<lambda>i.
        \<lparr> timestamp = new_Date (fsub (Fin (of_int (clock w (clock_reads w + (i - a)))))
                                  (fmul (Fin (of_nat i)) (Fin 1000))),
          value' = fmul (Fin (random_source w (random_draws w + (i - a)))) (Fin 100),
          meta = \<lparr> sensor = ''sensor'' @ Number_toString (Fin (of_nat (i mod 5))) \<rparr> \<rparr>)
        [a ..< a + n]),
      w\<lparr>clock_reads := clock_reads w + n, random_draws := random_draws w + n\<rparr>)"
proof (induction n arbitrary: a w)
  case 0
  show ?case
    by (simp add: io_return_def)
next
  case (Suc n)
  define g where "g = (\<lambda>(w::world) a i.
        \<lparr> timestamp = new_Date (fsub (Fin (of_int (clock w (clock_reads w + (i - a)))))
                                  (fmul (Fin (of_nat i)) (Fin 1000))),
          value' = fmul (Fin (random_source w (random_draws w + (i - a)))) (Fin 100),
          meta = \<lparr> sensor = ''sensor'' @ Number_toString (Fin (of_nat (i mod 5))) \<rparr> \<rparr>)"
  define w1 where
    "w1 = w\<lparr>clock_reads := Suc (clock_reads w), random_draws := Suc (random_draws w)\<rparr>"
  have upt: "[a ..< a + Suc n] = a # [Suc a ..< Suc a + n]"
    by (simp add: upt_conv_Cons)
  have first: "generateRecord a w = (Resolved (g w a a), w1)"
    by (simp add: generateRecord_def io_bind_def io_return_def Date_now_def Math_random_def
        w1_def g_def del: Number_toString.simps)
  have IH: "io_mapM generateRecord [Suc a ..< Suc a + n] w1 =
      (Resolved (map (g w1 (Suc a)) [Suc a ..< Suc a + n]),
       w1\<lparr>clock_reads := clock_reads w1 + n, random_draws := random_draws w1 + n\<rparr>)"
    unfolding g_def by (rule Suc.IH)
  have rest: "map (g w1 (Suc a)) [Suc a ..< Suc a + n] = map (g w a) [Suc a ..< Suc a + n]"
  proof (rule map_cong)
    fix i
    assume "i \<in> set [Suc a ..< Suc a + n]"
    then have "Suc a \<le> i"
      by (simp only: set_upt atLeastLessThan_iff)
    then have e: "clock_reads w1 + (i - Suc a) = clock_reads w + (i - a)"
      "random_draws w1 + (i - Suc a) = random_draws w + (i - a)"
      by (simp_all add: w1_def)
    have c: "clock w1 = clock w" "random_source w1 = random_source w"
      by (simp_all add: w1_def)
    show "g w1 (Suc a) i = g w a i"
      unfolding g_def by (simp only: e c)
  qed (rule refl)
  have fin: "w1\<lparr>clock_reads := clock_reads w1 + n, random_draws := random_draws w1 + n\<rparr>
      = w\<lparr>clock_reads := clock_reads w + Suc n, random_draws := random_draws w + Suc n\<rparr>"
    by (simp add: w1_def)
  have "io_mapM generateRecord (a # [Suc a ..< Suc a + n]) w =
      (Resolved (map (g w a) (a # [Suc a ..< Suc a + n])),
       w\<lparr>clock_reads := clock_reads w + Suc n, random_draws := random_draws w + Suc n\<rparr>)"
    by (simp only: io_mapM.simps io_bind_def first IH rest fin io_return_def prod.case
        outcome.case list.map)
  then show ?case
    unfolding upt g_def .
qed

lemma generateData_eq:
  assumes "count \<le> 4294967295"
  shows "generateData count w =
     (Resolved (map (\<lambda>i.
        \<lparr> timestamp = new_Date (fsub (Fin (of_int (clock w (clock_reads w + i))))
                                  (fmul (Fin (of_nat i)) (Fin 1000))),
          value' = fmul (Fin (random_source w (random_draws w + i))) (Fin 100),
          meta = \<lparr> sensor = ''sensor'' @ Number_toString (Fin (of_nat (i mod 5))) \<rparr> \<rparr>)
        [0 ..< count]),
      w\<lparr>clock_reads := clock_reads w + count, random_draws := random_draws w + count\<rparr>)"
  using assms io_mapM_generateRecord [of 0 count w]
  by (simp add: generateData_def del: Number_toString.simps)

lemma clock_drift:
  fixes f :: "nat \<Rightarrow> int"
  assumes "\<And>k. k < d \<Longrightarrow> f (a + Suc k) - f (a + k) < 1000"
  shows "f (a + d) \<le> f a + 999 * int d"
  using assms
proof (induction d)
  case 0
  show ?case
    by simp
next
  case (Suc d)
  have "f (a + d) \<le> f a + 999 * int d"
    by (rule Suc.IH) (use Suc.prems in simp)
  moreover have "f (a + Suc d) - f (a + d) < 1000"
    by (rule Suc.prems) simp
  ultimately show ?case
    by simp
qed

lemma sensor_digit:
  "Number_toString (Fin (of_nat (i mod 5))) = [digit_char (int (i mod 5))]"
proof -
  have "i mod 5 = 0 \<or> i mod 5 = 1 \<or> i mod 5 = 2 \<or> i mod 5 = 3 \<or> i mod 5 = 4"
    by presburger
  then show ?thesis
    by (elim disjE) (simp_all add: Number_toString_digits digit_char_def
        del: Number_toString.simps One_nat_def)
qed

text \<open>
  C2. \<^verbatim>\<open>generateData(count)\<close> returns, for every count up to \<open>2\<^sup>3\<^sup>2 - 1\<close> (a longer array
  cannot be created), exactly \<open>count\<close> records. The clock is read once per record: with
  readings that are valid time values from 1970 on, the timestamp at index \<open>i\<close> is the
  \<open>i\<close>-th reading minus \<open>i\<close> seconds. With draws that are numbers in \<open>[0, 1)\<close>, every
  value lies in \<open>[0, 100)\<close>. The sensor is \<^verbatim>\<open>sensor\<close> followed by the digit \<open>i mod 5\<close>, so it
  has period 5. The timestamps are strictly decreasing (hence distinct) provided the
  clock advances by less than one second from each reading to the next.
\<close>

theorem generateData_records:
  assumes count: "count \<le> 4294967295"
    and time: "\<forall>i<count. 0 \<le> clock w (clock_reads w + i)
                 \<and> clock w (clock_reads w + i) \<le> 8640000000000000"
    and draws: "\<forall>i<count. double (Fin (random_source w (random_draws w + i)))
                 \<and> 0 \<le> random_source w (random_draws w + i)
                 \<and> random_source w (random_draws w + i) < 1"
  shows "\<exists>records w'.
           generateData count w = (Resolved records, w')
         \<and> length records = count
         \<and> (\<forall>i<count.
               timestamp (records ! i)
                 = Fin (of_int (clock w (clock_reads w + i) - 1000 * int i))
             \<and> fle (Fin 0) (value' (records ! i))
             \<and> fless (value' (records ! i)) (Fin 100)
             \<and> sensor (meta (records ! i)) = ''sensor'' @ [digit_char (int (i mod 5))])
         \<and> (\<forall>i. i + 5 < count \<longrightarrow>
               sensor (meta (records ! (i + 5))) = sensor (meta (records ! i)))
         \<and> ((\<forall>i. Suc i < count \<longrightarrow>
                 clock w (clock_reads w + Suc i) - clock w (clock_reads w + i) < 1000) \<longrightarrow>
             (\<forall>i j. i < j \<and> j < count \<longrightarrow>
                 rv (timestamp (records ! j)) < rv (timestamp (records ! i))))"
proof -
  define records where "records = map (\<lambda>i.
        \<lparr> timestamp = new_Date (fsub (Fin (of_int (clock w (clock_reads w + i))))
                                  (fmul (Fin (of_nat i)) (Fin 1000))),
          value' = fmul (Fin (random_source w (random_draws w + i))) (Fin 100),
          meta = \<lparr> sensor = ''sensor'' @ Number_toString (Fin (of_nat (i mod 5))) \<rparr> \<rparr>)
        [0 ..< count]"
  define w' where "w' = w\<lparr>clock_reads := clock_reads w + count,
      random_draws := random_draws w + count\<rparr>"
  have gen: "generateData count w = (Resolved records, w')"
    unfolding records_def w'_def using count by (rule generateData_eq)
  have len: "length records = count"
    by (simp add: records_def)
  have nth: "records ! i =
        \<lparr> timestamp = new_Date (fsub (Fin (of_int (clock w (clock_reads w + i))))
                                  (fmul (Fin (of_nat i)) (Fin 1000))),
          value' = fmul (Fin (random_source w (random_draws w + i))) (Fin 100),
          meta = \<lparr> sensor = ''sensor'' @ Number_toString (Fin (of_nat (i mod 5))) \<rparr> \<rparr>"
    if "i < count" for i
    using that by (simp add: records_def del: Number_toString.simps)
  have ts: "timestamp (records ! i) = Fin (of_int (clock w (clock_reads w + i) - 1000 * int i))"
    if "i < count" for i
  proof -
    have "0 \<le> clock w (clock_reads w + i)" and "clock w (clock_reads w + i) \<le> 8640000000000000"
      using time that by blast+
    moreover have "i \<le> 4294967295"
      using that count by simp
    ultimately have "new_Date (fsub (Fin (of_int (clock w (clock_reads w + i))))
                                  (fmul (Fin (of_nat i)) (Fin 1000)))
        = Fin (of_int (clock w (clock_reads w + i) - 1000 * int i))"
      by (rule timestamp_exact)
    then show ?thesis
      by (simp only: nth [OF that] SyntheticRecord.simps)
  qed
  have v: "fle (Fin 0) (value' (records ! i)) \<and> fless (value' (records ! i)) (Fin 100)"
    if "i < count" for i
  proof -
    have "double (Fin (random_source w (random_draws w + i)))"
      and "0 \<le> random_source w (random_draws w + i)"
      and "random_source w (random_draws w + i) < 1"
      using draws that by blast+
    then have "fle (Fin 0) (fmul (Fin (random_source w (random_draws w + i))) (Fin 100))
        \<and> fless (fmul (Fin (random_source w (random_draws w + i))) (Fin 100)) (Fin 100)"
      by (simp only: random_value_range)
    then show ?thesis
      by (simp only: nth [OF that] SyntheticRecord.simps)
  qed
  have s: "sensor (meta (records ! i)) = ''sensor'' @ [digit_char (int (i mod 5))]"
    if "i < count" for i
    by (simp only: nth [OF that] SyntheticRecord.simps meta.simps sensor_digit)
  have period: "sensor (meta (records ! (i + 5))) = sensor (meta (records ! i))"
    if "i + 5 < count" for i
    using that s [of i] s [of "i + 5"] by simp
  have decreasing: "rv (timestamp (records ! j)) < rv (timestamp (records ! i))"
    if drift: "\<forall>i. Suc i < count \<longrightarrow>
                 clock w (clock_reads w + Suc i) - clock w (clock_reads w + i) < 1000"
      and ij: "i < j" "j < count" for i j
  proof -
    define d where "d = j - i"
    have j: "j = i + d" and d: "0 < d"
      using ij by (simp_all add: d_def)
    have "clock w ((clock_reads w + i) + d) \<le> clock w (clock_reads w + i) + 999 * int d"
    proof (rule clock_drift)
      fix k
      assume "k < d"
      then have "Suc (i + k) < count"
        using ij j by simp
      with drift have "clock w (clock_reads w + Suc (i + k)) - clock w (clock_reads w + (i + k)) < 1000"
        by blast
      then show "clock w (clock_reads w + i + Suc k) - clock w (clock_reads w + i + k) < 1000"
        by (simp add: add.assoc)
    qed
    then have "clock w (clock_reads w + j) - 1000 * int j < clock w (clock_reads w + i) - 1000 * int i"
      using d by (simp add: j add.assoc)
    then have "real_of_int (clock w (clock_reads w + j) - 1000 * int j)
        < real_of_int (clock w (clock_reads w + i) - 1000 * int i)"
      by (simp only: of_int_less_iff)
    then show ?thesis
      using ts [of i] ts [of j] ij by simp
  qed
  have each: "\<forall>i<count.
               timestamp (records ! i)
                 = Fin (of_int (clock w (clock_reads w + i) - 1000 * int i))
             \<and> fle (Fin 0) (value' (records ! i))
             \<and> fless (value' (records ! i)) (Fin 100)
             \<and> sensor (meta (records ! i)) = ''sensor'' @ [digit_char (int (i mod 5))]"
    using ts v s by blast
  have period_all: "\<forall>i. i + 5 < count \<longrightarrow>
               sensor (meta (records ! (i + 5))) = sensor (meta (records ! i))"
    using period by blast
  have decreasing_all: "(\<forall>i. Suc i < count \<longrightarrow>
                 clock w (clock_reads w + Suc i) - clock w (clock_reads w + i) < 1000) \<longrightarrow>
             (\<forall>i j. i < j \<and> j < count \<longrightarrow>
                 rv (timestamp (records ! j)) < rv (timestamp (records ! i)))"
    using decreasing by blast
  show ?thesis
    by (intro exI [of _ records] exI [of _ w'] conjI gen len each period_all decreasing_all)
qed

theorem generateData_records_witness:
  "\<exists>records w'.
       generateData 7 quiet_world = (Resolved records, w')
     \<and> length records = 7
     \<and> timestamp (records ! 6) = Fin (- 5994)
     \<and> fle (Fin 0) (value' (records ! 6))
     \<and> fless (value' (records ! 6)) (Fin 100)
     \<and> sensor (meta (records ! 6)) = ''sensor1''
     \<and> sensor (meta (records ! 6)) = sensor (meta (records ! 1))
     \<and> rv (timestamp (records ! 6)) < rv (timestamp (records ! 5))"
proof -
  have count: "(7::nat) \<le> 4294967295"
    by simp
  have time: "\<forall>i<7. 0 \<le> clock quiet_world (clock_reads quiet_world + i)
                 \<and> clock quiet_world (clock_reads quiet_world + i) \<le> 8640000000000000"
    by (simp add: quiet_world_def start_world_def ticking_clock_def)
  have draws: "\<forall>i<7. double (Fin (random_source quiet_world (random_draws quiet_world + i)))
                 \<and> 0 \<le> random_source quiet_world (random_draws quiet_world + i)
                 \<and> random_source quiet_world (random_draws quiet_world + i) < 1"
    by (simp add: quiet_world_def start_world_def zero_draws_def double_def round64_def)
  have drift: "\<forall>i. Suc i < 7 \<longrightarrow>
      clock quiet_world (clock_reads quiet_world + Suc i)
        - clock quiet_world (clock_reads quiet_world + i) < 1000"
    by (simp add: quiet_world_def start_world_def ticking_clock_def)
  from generateData_records [OF count time draws] obtain records w' where
    gen: "generateData 7 quiet_world = (Resolved records, w')" and
    len: "length records = 7" and
    each: "\<forall>i<7.
               timestamp (records ! i)
                 = Fin (of_int (clock quiet_world (clock_reads quiet_world + i) - 1000 * int i))
             \<and> fle (Fin 0) (value' (records ! i))
             \<and> fless (value' (records ! i)) (Fin 100)
             \<and> sensor (meta (records ! i)) = ''sensor'' @ [digit_char (int (i mod 5))]" and
    period: "\<forall>i. i + 5 < 7 \<longrightarrow>
               sensor (meta (records ! (i + 5))) = sensor (meta (records ! i))" and
    decreasing: "(\<forall>i. Suc i < 7 \<longrightarrow>
                 clock quiet_world (clock_reads quiet_world + Suc i)
                   - clock quiet_world (clock_reads quiet_world + i) < 1000) \<longrightarrow>
             (\<forall>i j. i < j \<and> j < 7 \<longrightarrow>
                 rv (timestamp (records ! j)) < rv (timestamp (records ! i)))"
    by blast
  have six: "timestamp (records ! 6)
                 = Fin (of_int (clock quiet_world (clock_reads quiet_world + 6) - 1000 * int 6))
             \<and> fle (Fin 0) (value' (records ! 6))
             \<and> fless (value' (records ! 6)) (Fin 100)
             \<and> sensor (meta (records ! 6)) = ''sensor'' @ [digit_char (int (6 mod 5))]"
    using each by simp
  have t: "timestamp (records ! 6) = Fin (- 5994)"
    using six by (simp add: quiet_world_def start_world_def ticking_clock_def)
  have s: "sensor (meta (records ! 6)) = ''sensor1''"
    using six by (simp add: digit_char_def)
  have p: "sensor (meta (records ! 6)) = sensor (meta (records ! 1))"
    using period [rule_format, of 1] by simp
  have d: "rv (timestamp (records ! 6)) < rv (timestamp (records ! 5))"
    using decreasing drift by simp
  show ?thesis
    using gen len t six s p d by blast
qed

theorem generateData_counterexample:
  "fst (generateData 2 jumping_world) = Resolved
      [\<lparr> timestamp = Fin 0, value' = Fin 0, meta = \<lparr> sensor = ''sensor0'' \<rparr> \<rparr>,
       \<lparr> timestamp = Fin 0, value' = Fin 0, meta = \<lparr> sensor = ''sensor1'' \<rparr> \<rparr>]"
proof -
  have t0: "new_Date (fsub (Fin (of_int 0)) (fmul (Fin (of_nat 0)) (Fin 1000)))
      = Fin (of_int (0 - 1000 * int 0))"
    by (rule timestamp_exact) simp_all
  have t1: "new_Date (fsub (Fin (of_int 1000)) (fmul (Fin (of_nat 1)) (Fin 1000)))
      = Fin (of_int (1000 - 1000 * int 1))"
    by (rule timestamp_exact) simp_all
  have v: "fmul (Fin 0) (Fin 100) = Fin 0"
    by (simp add: fmul_def signed_zero_def)
  have c: "clock jumping_world = jumping_clock" "clock_reads jumping_world = 0"
    "random_source jumping_world = zero_draws" "random_draws jumping_world = 0"
    by (simp_all add: jumping_world_def start_world_def)
  have "generateData 2 jumping_world =
     (Resolved (map (\<lambda>i.
        \<lparr> timestamp = new_Date (fsub (Fin (of_int (clock jumping_world (clock_reads jumping_world + i))))
                                  (fmul (Fin (of_nat i)) (Fin 1000))),
          value' = fmul (Fin (random_source jumping_world (random_draws jumping_world + i))) (Fin 100),
          meta = \<lparr> sensor = ''sensor'' @ Number_toString (Fin (of_nat (i mod 5))) \<rparr> \<rparr>)
        [0 ..< 2]),
      jumping_world\<lparr>clock_reads := clock_reads jumping_world + 2,
        random_draws := random_draws jumping_world + 2\<rparr>)"
    by (rule generateData_eq) simp
  moreover have "[0 ..< 2] = [0, Suc 0]"
    by (simp add: numeral_2_eq_2)
  ultimately show ?thesis
    using t0 t1
    by (simp add: c jumping_clock_def zero_draws_def v Number_toString_digits
        del: Number_toString.simps)
qed

end
